theory Spec2Isabelle
  imports Main "HOL-Library.Sublist"
begin

section \<open>Task Manager API: the in-memory task store of backend/main.py\<close>

text \<open>
  The handlers of \<^verbatim>\<open>backend/main.py\<close> act on two module globals, the
  dictionary \<^verbatim>\<open>tasks_db\<close> and the counter \<^verbatim>\<open>current_id\<close>. Here the two
  globals are a record that every handler takes and returns. A Python \<^verbatim>\<open>dict\<close>
  iterates in insertion order, so it is an association list; Python integers are
  unbounded, so they are \<open>int\<close>; a raised exception is the \<open>Inl\<close> branch of the
  result, returned with the state as it was when the exception left the handler.
\<close>

subsection \<open>Values\<close>

datatype date = Date int int int

datatype datetime = Datetime date int int int int

text \<open>
  A field of a request model as pydantic records it: either the request did not
  mention it (\<open>Unset\<close>), or it did (\<open>Given\<close>); a given value of an optional type
  may still be \<open>None\<close>, the JSON \<^verbatim>\<open>null\<close>.
\<close>

datatype 'a field = Unset | Given 'a

datatype error = HTTPException (status_code: int) (detail: string) | ValidationError

subsection \<open>The pydantic models\<close>

record TaskBase =
  title :: string
  description :: "string option"
  status :: string
  due_date :: "date option"
  assignee :: "string option"

type_synonym TaskCreate = TaskBase

record TaskUpdate =
  title_upd :: "string option field"
  description_upd :: "string option field"
  status_upd :: "string option field"
  due_date_upd :: "date option field"
  assignee_upd :: "string option field"

text \<open>
  A request body of \<^verbatim>\<open>PUT /tasks/{task_id}\<close> that also names \<^verbatim>\<open>id\<close> and
  \<^verbatim>\<open>created_at\<close>. \<^verbatim>\<open>TaskUpdate\<close> declares neither and has no \<^verbatim>\<open>Config\<close>, so
  building the model keeps its five fields and drops the rest.
\<close>

record TaskUpdate_body = TaskUpdate +
  id_body :: "int field"
  created_at_body :: "datetime field"

definition TaskUpdate_init :: "TaskUpdate_body \<Rightarrow> TaskUpdate" where
  "TaskUpdate_init b =
     \<lparr>title_upd = title_upd b, description_upd = description_upd b,
      status_upd = status_upd b, due_date_upd = due_date_upd b,
      assignee_upd = assignee_upd b\<rparr>"

record Task = TaskBase +
  id_field :: int
  created_at :: datetime

text \<open>
  The keyword arguments a \<^verbatim>\<open>TaskCreate\<close> is built from: the fields of a request
  body, each one omitted, \<^verbatim>\<open>null\<close> or a value of the declared type.
\<close>

record TaskCreate_args =
  title_arg :: "string option field"
  description_arg :: "string option field"
  status_arg :: "string option field"
  due_date_arg :: "date option field"
  assignee_arg :: "string option field"

text \<open>
  The dictionary \<^verbatim>\<open>updated_task_data\<close> of \<^verbatim>\<open>update_task\<close>: the seven keys of
  \<^verbatim>\<open>stored_task.dict()\<close>. The five keys a \<^verbatim>\<open>TaskUpdate\<close> can overwrite may hold
  \<^verbatim>\<open>None\<close> after the overlay; \<^verbatim>\<open>id\<close> and \<^verbatim>\<open>created_at\<close> are no keys of
  \<^verbatim>\<open>task_update.dict(...)\<close> and keep their types.
\<close>

record task_data =
  title_d :: "string option"
  description_d :: "string option"
  status_d :: "string option"
  due_date_d :: "date option"
  assignee_d :: "string option"
  id_d :: int
  created_at_d :: datetime

subsection \<open>Building and validating the models\<close>

text \<open>
  \<^verbatim>\<open>TaskCreate(**args)\<close>: \<^verbatim>\<open>title\<close> is required (\<^verbatim>\<open>Field(...)\<close>) and a \<^verbatim>\<open>str\<close>,
  \<^verbatim>\<open>status\<close> is a \<^verbatim>\<open>str\<close> with the default \<^verbatim>\<open>"todo"\<close>, the three optional
  fields default to \<^verbatim>\<open>None\<close>. A \<^verbatim>\<open>None\<close> for a field of type \<^verbatim>\<open>str\<close> is
  refused.
\<close>

definition TaskCreate_init :: "TaskCreate_args \<Rightarrow> error + TaskCreate" where
  "TaskCreate_init a =
     (case title_arg a of
        Unset \<Rightarrow> Inl ValidationError
      | Given None \<Rightarrow> Inl ValidationError
      | Given (Some t) \<Rightarrow>
          (case (case status_arg a of Unset \<Rightarrow> Some ''todo'' | Given v \<Rightarrow> v) of
             None \<Rightarrow> Inl ValidationError
           | Some s \<Rightarrow>
               Inr \<lparr>title = t,
                    description = (case description_arg a of Unset \<Rightarrow> None | Given v \<Rightarrow> v),
                    status = s,
                    due_date = (case due_date_arg a of Unset \<Rightarrow> None | Given v \<Rightarrow> v),
                    assignee = (case assignee_arg a of Unset \<Rightarrow> None | Given v \<Rightarrow> v)\<rparr>))"

text \<open>\<^verbatim>\<open>stored_task.dict()\<close>: every field of the task under its own key.\<close>

definition Task_dict :: "Task \<Rightarrow> task_data" where
  "Task_dict t =
     \<lparr>title_d = Some (title t), description_d = description t, status_d = Some (status t),
      due_date_d = due_date t, assignee_d = assignee t,
      id_d = id_field t, created_at_d = created_at t\<rparr>"

text \<open>
  \<^verbatim>\<open>updated_task_data.update(task_update.dict(exclude_unset=True))\<close>: a key of the
  update is written over the stored one exactly when the request gave the field.
\<close>

definition overlay :: "'a field \<Rightarrow> 'a \<Rightarrow> 'a" where
  "overlay f old = (case f of Unset \<Rightarrow> old | Given v \<Rightarrow> v)"

definition dict_update :: "task_data \<Rightarrow> TaskUpdate \<Rightarrow> task_data" where
  "dict_update d u =
     d\<lparr>title_d := overlay (title_upd u) (title_d d),
       description_d := overlay (description_upd u) (description_d d),
       status_d := overlay (status_upd u) (status_d d),
       due_date_d := overlay (due_date_upd u) (due_date_d d),
       assignee_d := overlay (assignee_upd u) (assignee_d d)\<rparr>"

text \<open>
  \<^verbatim>\<open>Task(**updated_task_data)\<close>: the schema is checked again; \<^verbatim>\<open>title\<close> and
  \<^verbatim>\<open>status\<close> are of type \<^verbatim>\<open>str\<close> and refuse \<^verbatim>\<open>None\<close>.
\<close>

definition Task_init :: "task_data \<Rightarrow> error + Task" where
  "Task_init d =
     (case title_d d of
        None \<Rightarrow> Inl ValidationError
      | Some t \<Rightarrow>
          (case status_d d of
             None \<Rightarrow> Inl ValidationError
           | Some s \<Rightarrow>
               Inr \<lparr>title = t, description = description_d d, status = s,
                    due_date = due_date_d d, assignee = assignee_d d,
                    id_field = id_d d, created_at = created_at_d d\<rparr>))"

subsection \<open>The dictionary\<close>

text \<open>
  The operations of the Python \<^verbatim>\<open>dict\<close> that the handlers use. Assigning to
  a key that is present keeps its position, assigning to a new key appends it.
\<close>

type_synonym ('k, 'v) pydict = "('k \<times> 'v) list"

fun dict_get :: "('k, 'v) pydict \<Rightarrow> 'k \<Rightarrow> 'v option" where
  "dict_get [] k = None"
| "dict_get ((k', v') # d) k = (if k' = k then Some v' else dict_get d k)"

fun dict_contains :: "('k, 'v) pydict \<Rightarrow> 'k \<Rightarrow> bool" where
  "dict_contains [] k = False"
| "dict_contains ((k', v') # d) k = (k' = k \<or> dict_contains d k)"

fun dict_setitem :: "('k, 'v) pydict \<Rightarrow> 'k \<Rightarrow> 'v \<Rightarrow> ('k, 'v) pydict" where
  "dict_setitem [] k v = [(k, v)]"
| "dict_setitem ((k', v') # d) k v =
     (if k' = k then (k, v) # d else (k', v') # dict_setitem d k v)"

fun dict_delitem :: "('k, 'v) pydict \<Rightarrow> 'k \<Rightarrow> ('k, 'v) pydict" where
  "dict_delitem [] k = []"
| "dict_delitem ((k', v') # d) k =
     (if k' = k then dict_delitem d k else (k', v') # dict_delitem d k)"

definition dict_values :: "('k, 'v) pydict \<Rightarrow> 'v list" where
  "dict_values d = map snd d"

definition dict_keys :: "('k, 'v) pydict \<Rightarrow> 'k list" where
  "dict_keys d = map fst d"

subsection \<open>The store and the handlers\<close>

record store =
  tasks_db :: "(int, Task) pydict"
  current_id :: int

definition init_store :: store where
  "init_store = \<lparr>tasks_db = [], current_id = 0\<rparr>"

definition not_found :: error where
  "not_found = HTTPException 404 ''Task not found''"

definition get_next_id :: "store \<Rightarrow> int \<times> store" where
  "get_next_id s = (current_id s + 1, s\<lparr>current_id := current_id s + 1\<rparr>)"

definition list_tasks :: "store \<Rightarrow> Task list \<times> store" where
  "list_tasks s = (dict_values (tasks_db s), s)"

text \<open>
  The clock value \<^verbatim>\<open>datetime.utcnow()\<close> is an argument. \<^verbatim>\<open>task_in\<close> is a
  \<^verbatim>\<open>TaskCreate\<close>, so its title and status are strings and \<^verbatim>\<open>Task(...)\<close> has
  nothing to refuse: the task is built from the five fields of \<^verbatim>\<open>task_in.dict()\<close>,
  the new id and the clock value.
\<close>

definition create_task :: "store \<Rightarrow> TaskCreate \<Rightarrow> datetime \<Rightarrow> Task \<times> store" where
  "create_task s task_in now =
     (let (task_id, s1) = get_next_id s;
          task = \<lparr>title = title task_in, description = description task_in,
                  status = status task_in, due_date = due_date task_in,
                  assignee = assignee task_in,
                  id_field = task_id, created_at = now\<rparr>
      in (task, s1\<lparr>tasks_db := dict_setitem (tasks_db s1) task_id task\<rparr>))"

text \<open>
  \<^verbatim>\<open>tasks_db.get(task_id)\<close> is \<^verbatim>\<open>None\<close> for a missing key and a \<^verbatim>\<open>Task\<close>
  otherwise; a pydantic model has neither \<^verbatim>\<open>__bool__\<close> nor \<^verbatim>\<open>__len__\<close>, so
  \<^verbatim>\<open>not task\<close> holds for \<^verbatim>\<open>None\<close> only.
\<close>

definition get_task :: "store \<Rightarrow> int \<Rightarrow> (error + Task) \<times> store" where
  "get_task s task_id =
     (case dict_get (tasks_db s) task_id of
        None \<Rightarrow> (Inl not_found, s)
      | Some task \<Rightarrow> (Inr task, s))"

definition update_task :: "store \<Rightarrow> int \<Rightarrow> TaskUpdate \<Rightarrow> (error + Task) \<times> store" where
  "update_task s task_id task_update =
     (case dict_get (tasks_db s) task_id of
        None \<Rightarrow> (Inl not_found, s)
      | Some stored_task \<Rightarrow>
          (let updated_task_data = dict_update (Task_dict stored_task) task_update
           in case Task_init updated_task_data of
                Inl e \<Rightarrow> (Inl e, s)
              | Inr updated_task \<Rightarrow>
                  (Inr updated_task,
                   s\<lparr>tasks_db := dict_setitem (tasks_db s) task_id updated_task\<rparr>)))"

text \<open>\<^verbatim>\<open>delete_task\<close> returns \<^verbatim>\<open>None\<close>, the empty body of status 204.\<close>

definition delete_task :: "store \<Rightarrow> int \<Rightarrow> (error + unit) \<times> store" where
  "delete_task s task_id =
     (if \<not> dict_contains (tasks_db s) task_id then (Inl not_found, s)
      else (Inr (), s\<lparr>tasks_db := dict_delitem (tasks_db s) task_id\<rparr>))"

subsection \<open>Sequences of requests\<close>

datatype request =
    Create TaskCreate datetime
  | Update int TaskUpdate
  | Delete int
  | Get int
  | ListAll

datatype response = RTask Task | RList "Task list" | RNone

definition reply :: "('a \<Rightarrow> response) \<Rightarrow> (error + 'a) \<times> store \<Rightarrow> (error + response) \<times> store" where
  "reply f r = (map_sum (\<lambda>e. e) f (fst r), snd r)"

fun step :: "store \<Rightarrow> request \<Rightarrow> (error + response) \<times> store" where
  "step s (Create task_in now) = (let (t, s') = create_task s task_in now in (Inr (RTask t), s'))"
| "step s (Update task_id task_update) = reply RTask (update_task s task_id task_update)"
| "step s (Delete task_id) = reply (\<lambda>_. RNone) (delete_task s task_id)"
| "step s (Get task_id) = reply RTask (get_task s task_id)"
| "step s ListAll = (let (ts, s') = list_tasks s in (Inr (RList ts), s'))"

text \<open>The state after a sequence of requests, served one after the other.\<close>

fun run :: "store \<Rightarrow> request list \<Rightarrow> store" where
  "run s [] = s"
| "run s (r # rs) = run (snd (step s r)) rs"

text \<open>
  The number of \<^verbatim>\<open>POST /tasks\<close> requests in a sequence, and the ids that
  \<^verbatim>\<open>create_task\<close> gives to the tasks it creates while the sequence runs.
\<close>

fun n_creates :: "request list \<Rightarrow> nat" where
  "n_creates [] = 0"
| "n_creates (Create task_in now # rs) = Suc (n_creates rs)"
| "n_creates (r # rs) = n_creates rs"

fun created_ids :: "store \<Rightarrow> request list \<Rightarrow> int list" where
  "created_ids s [] = []"
| "created_ids s (Create task_in now # rs) =
     id_field (fst (create_task s task_in now)) # created_ids (snd (create_task s task_in now)) rs"
| "created_ids s (r # rs) = created_ids (snd (step s r)) rs"

subsection \<open>Concrete requests and stores\<close>

text \<open>\<^verbatim>\<open>TaskUpdate()\<close>, the update of the request body \<^verbatim>\<open>{}\<close>.\<close>

definition TaskUpdate_empty :: TaskUpdate where
  "TaskUpdate_empty = \<lparr>title_upd = Unset, description_upd = Unset, status_upd = Unset,
     due_date_upd = Unset, assignee_upd = Unset\<rparr>"

definition ex_create :: TaskCreate where
  "ex_create = \<lparr>title = ''Write spec'', description = None, status = ''todo'',
     due_date = None, assignee = None\<rparr>"

definition ex_now :: datetime where
  "ex_now = Datetime (Date 2025 12 31) 9 30 0 0"

definition ex_task :: Task where
  "ex_task = \<lparr>title = ''Write spec'', description = None, status = ''todo'',
     due_date = None, assignee = None, id_field = 1, created_at = ex_now\<rparr>"

text \<open>The store after the first \<^verbatim>\<open>POST /tasks\<close>.\<close>

definition ex_store :: store where
  "ex_store = snd (create_task init_store ex_create ex_now)"

definition ex_create2 :: TaskCreate where
  "ex_create2 = \<lparr>title = ''Review'', description = Some ''second task'', status = ''in_progress'',
     due_date = Some (Date 2026 1 15), assignee = Some ''bharat@company.com''\<rparr>"

definition ex_now2 :: datetime where
  "ex_now2 = Datetime (Date 2025 12 31) 9 31 0 0"

definition ex_task2 :: Task where
  "ex_task2 = \<lparr>title = ''Review'', description = Some ''second task'', status = ''in_progress'',
     due_date = Some (Date 2026 1 15), assignee = Some ''bharat@company.com'',
     id_field = 2, created_at = ex_now2\<rparr>"

text \<open>The store after a second \<^verbatim>\<open>POST /tasks\<close>.\<close>

definition ex_store2 :: store where
  "ex_store2 = snd (create_task ex_store ex_create2 ex_now2)"

text \<open>The request body \<^verbatim>\<open>{"title": "Write spec"}\<close>.\<close>

definition ex_args :: TaskCreate_args where
  "ex_args = \<lparr>title_arg = Given (Some ''Write spec''), description_arg = Unset,
     status_arg = Unset, due_date_arg = Unset, assignee_arg = Unset\<rparr>"

text \<open>The create payload \<^verbatim>\<open>{"title": null}\<close>.\<close>

definition ex_args_null_title :: TaskCreate_args where
  "ex_args_null_title = \<lparr>title_arg = Given None, description_arg = Unset,
     status_arg = Unset, due_date_arg = Unset, assignee_arg = Unset\<rparr>"

text \<open>The request bodies \<^verbatim>\<open>{"title": null}\<close> and \<^verbatim>\<open>{"description": null, "status": "done"}\<close>.\<close>

definition ex_null_title :: TaskUpdate where
  "ex_null_title = \<lparr>title_upd = Given None, description_upd = Unset, status_upd = Unset,
     due_date_upd = Unset, assignee_upd = Unset\<rparr>"

definition ex_done :: TaskUpdate where
  "ex_done = \<lparr>title_upd = Unset, description_upd = Given None, status_upd = Given (Some ''done''),
     due_date_upd = Unset, assignee_upd = Unset\<rparr>"

text \<open>The request body \<^verbatim>\<open>{"status": "done", "description": null, "id": 99, "created_at": ...}\<close>.\<close>

definition ex_body :: TaskUpdate_body where
  "ex_body = \<lparr>title_upd = Unset, description_upd = Given None, status_upd = Given (Some ''done''),
     due_date_upd = Unset, assignee_upd = Unset,
     id_body = Given 99, created_at_body = Given (Datetime (Date 1999 1 1) 0 0 0 0)\<rparr>"

definition ex_task_done :: Task where
  "ex_task_done = \<lparr>title = ''Write spec'', description = None, status = ''done'',
     due_date = None, assignee = None, id_field = 1, created_at = ex_now\<rparr>"

subsection \<open>The listing, in the words of the specification\<close>

text \<open>
  What the specification says of an update, written on the task itself: the
  fields present in the partial payload replace the stored ones, the others stay,
  and the result is checked against the schema of a task, which has no
  \<^verbatim>\<open>null\<close> title or status. \<open>None\<close> is a merge the schema refuses.
\<close>

definition spec_merge :: "Task \<Rightarrow> TaskUpdate \<Rightarrow> Task option" where
  "spec_merge t u =
     (if title_upd u = Given None \<or> status_upd u = Given None then None
      else Some (t\<lparr>title := (case title_upd u of Given (Some v) \<Rightarrow> v | _ \<Rightarrow> title t),
                   description := (case description_upd u of Given v \<Rightarrow> v | Unset \<Rightarrow> description t),
                   status := (case status_upd u of Given (Some v) \<Rightarrow> v | _ \<Rightarrow> status t),
                   due_date := (case due_date_upd u of Given v \<Rightarrow> v | Unset \<Rightarrow> due_date t),
                   assignee := (case assignee_upd u of Given v \<Rightarrow> v | Unset \<Rightarrow> assignee t)\<rparr>))"

text \<open>
  The task that the specification expects under id \<open>k\<close> after a history of
  requests, the latest request first: the values of its most recent successful
  create or update; \<open>None\<close> when the id was never given out or was deleted since.
  The n-th create of a history gives out the id n.
\<close>

fun spec_task :: "request list \<Rightarrow> int \<Rightarrow> Task option" where
  "spec_task [] k = None"
| "spec_task (Create task_in now # h) k =
     (if k = int (n_creates h) + 1
      then Some \<lparr>title = title task_in, description = description task_in,
                 status = status task_in, due_date = due_date task_in,
                 assignee = assignee task_in, id_field = k, created_at = now\<rparr>
      else spec_task h k)"
| "spec_task (Update j u # h) k =
     (if j = k
      then (case spec_task h k of
              None \<Rightarrow> None
            | Some t \<Rightarrow> (case spec_merge t u of None \<Rightarrow> Some t | Some t' \<Rightarrow> Some t'))
      else spec_task h k)"
| "spec_task (Delete j # h) k = (if j = k then None else spec_task h k)"
| "spec_task (Get j # h) k = spec_task h k"
| "spec_task (ListAll # h) k = spec_task h k"

text \<open>An id is alive when it was created and not deleted since.\<close>

fun spec_alive :: "request list \<Rightarrow> int \<Rightarrow> bool" where
  "spec_alive [] k = False"
| "spec_alive (Create task_in now # h) k = (k = int (n_creates h) + 1 \<or> spec_alive h k)"
| "spec_alive (Delete j # h) k = (j \<noteq> k \<and> spec_alive h k)"
| "spec_alive (r # h) k = spec_alive h k"

text \<open>A history of six requests, two of which fail.\<close>

definition ex_requests :: "request list" where
  "ex_requests = [Create ex_create ex_now, Create ex_create2 ex_now2, Update 1 ex_done,
     Delete 2, Update 1 ex_null_title, Delete 7]"

text \<open>The dictionary that holds, for the keys of a list in their order, the values a map has for them.\<close>

fun entries :: "('k \<Rightarrow> 'v option) \<Rightarrow> 'k list \<Rightarrow> ('k, 'v) pydict" where
  "entries f [] = []"
| "entries f (k # ks) = (case f k of None \<Rightarrow> entries f ks | Some v \<Rightarrow> (k, v) # entries f ks)"

section \<open>Properties\<close>

subsection \<open>The dictionary operations\<close>

lemma dict_contains_get: "dict_contains d k \<longleftrightarrow> dict_get d k \<noteq> None"
  by (induction d) auto

lemma dict_get_None_keys: "dict_get d k = None \<longleftrightarrow> k \<notin> set (dict_keys d)"
  by (induction d) (auto simp: dict_keys_def split: if_splits)

lemma dict_get_setitem:
  "dict_get (dict_setitem d k v) k' = (if k' = k then Some v else dict_get d k')"
  by (induction d) auto

lemma dict_get_delitem:
  "dict_get (dict_delitem d k) k' = (if k' = k then None else dict_get d k')"
  by (induction d) auto

lemma dict_setitem_same: "dict_get d k = Some v \<Longrightarrow> dict_setitem d k v = d"
  by (induction d) (auto split: if_splits)

lemma dict_setitem_absent: "dict_get d k = None \<Longrightarrow> dict_setitem d k v = d @ [(k, v)]"
  by (induction d) (auto split: if_splits)

lemma dict_keys_setitem_present:
  "dict_get d k \<noteq> None \<Longrightarrow> dict_keys (dict_setitem d k v) = dict_keys d"
  by (induction d) (auto simp: dict_keys_def split: if_splits)

lemma dict_delitem_filter: "dict_delitem d k = filter (\<lambda>e. fst e \<noteq> k) d"
  by (induction d) auto

lemma dict_setitem_present_nth:
  "dict_get d k \<noteq> None \<Longrightarrow>
   \<exists>i<length d. fst (d ! i) = k \<and> dict_setitem d k v = d[i := (k, v)]"
proof (induction d)
  case Nil
  then show ?case by simp
next
  case (Cons e d)
  obtain k' v' where e: "e = (k', v')" by (cases e)
  show ?case
  proof (cases "k' = k")
    case True
    then have "fst ((e # d) ! 0) = k \<and> dict_setitem (e # d) k v = (e # d)[0 := (k, v)]"
      by (simp add: e)
    then show ?thesis by blast
  next
    case False
    with Cons.prems have "dict_get d k \<noteq> None" by (simp add: e)
    from Cons.IH [OF this] obtain i where i: "i < length d" "fst (d ! i) = k"
      "dict_setitem d k v = d[i := (k, v)]" by blast
    with False have "Suc i < length (e # d) \<and> fst ((e # d) ! Suc i) = k \<and>
        dict_setitem (e # d) k v = (e # d)[Suc i := (k, v)]"
      by (simp add: e)
    then show ?thesis by blast
  qed
qed

lemma length_filter_distinct_key:
  "distinct (map fst d) \<Longrightarrow> k \<in> set (map fst d) \<Longrightarrow>
   length (filter (\<lambda>e. fst e \<noteq> k) d) + 1 = length d"
proof (induction d)
  case Nil
  then show ?case by simp
next
  case (Cons e d)
  show ?case
  proof (cases "fst e = k")
    case True
    with Cons.prems have "k \<notin> fst ` set d" by simp
    then have "filter (\<lambda>e. fst e \<noteq> k) d = d"
      by (auto simp: filter_id_conv)
    with True show ?thesis by simp
  next
    case False
    with Cons show ?thesis by simp
  qed
qed

lemma dict_keys_setitem:
  "dict_keys (dict_setitem d k v) = (if k \<in> set (dict_keys d) then dict_keys d else dict_keys d @ [k])"
  using dict_get_None_keys [of d k]
  by (cases "dict_get d k") (auto simp: dict_setitem_absent dict_keys_setitem_present, simp add: dict_keys_def)

lemma dict_keys_delitem: "dict_keys (dict_delitem d k) = filter (\<lambda>j. j \<noteq> k) (dict_keys d)"
  by (simp add: dict_delitem_filter dict_keys_def filter_map comp_def)

subsection \<open>The effect of a handler on the store\<close>

lemma delete_task_db: "tasks_db (snd (delete_task s k)) = dict_delitem (tasks_db s) k"
proof (cases "dict_contains (tasks_db s) k")
  case True
  then show ?thesis by (simp add: delete_task_def)
next
  case False
  then have "k \<notin> set (dict_keys (tasks_db s))"
    by (simp add: dict_contains_get dict_get_None_keys)
  then have "filter (\<lambda>e. fst e \<noteq> k) (tasks_db s) = tasks_db s"
    by (auto simp: filter_id_conv dict_keys_def)
  with False show ?thesis by (simp add: delete_task_def dict_delitem_filter)
qed

lemma delete_task_Inr: "fst (delete_task s k) = Inr () \<longleftrightarrow> k \<in> set (dict_keys (tasks_db s))"
  using dict_get_None_keys [of "tasks_db s" k]
  by (auto simp: delete_task_def dict_contains_get)

lemma create_task_db:
  "tasks_db (snd (create_task s task_in now)) =
     dict_setitem (tasks_db s) (current_id s + 1) (fst (create_task s task_in now))"
  by (simp add: create_task_def get_next_id_def Let_def)

lemma update_task_db:
  "tasks_db (snd (update_task s k u)) = tasks_db s \<or>
   (dict_get (tasks_db s) k \<noteq> None \<and>
    (\<exists>t'. tasks_db (snd (update_task s k u)) = dict_setitem (tasks_db s) k t'))"
  by (auto simp: update_task_def Let_def split: option.splits sum.splits)

lemma snd_step:
  "snd (step s (Create task_in now)) = snd (create_task s task_in now)"
  "snd (step s (Update k u)) = snd (update_task s k u)"
  "snd (step s (Delete k)) = snd (delete_task s k)"
  "snd (step s (Get k)) = s"
  "snd (step s ListAll) = s"
  by (simp_all add: reply_def split_beta get_task_def list_tasks_def split: option.splits)

declare step.simps [simp del]

lemma step_keys:
  "dict_keys (tasks_db (snd (step s r))) = dict_keys (tasks_db s) \<or>
   (\<exists>c. c \<notin> set (dict_keys (tasks_db s)) \<and>
        dict_keys (tasks_db (snd (step s r))) = dict_keys (tasks_db s) @ [c]) \<or>
   (\<exists>k. dict_keys (tasks_db (snd (step s r))) = filter (\<lambda>j. j \<noteq> k) (dict_keys (tasks_db s)))"
proof (cases r)
  case (Create task_in now)
  then show ?thesis
    by (auto simp: snd_step create_task_db dict_keys_setitem)
next
  case (Update k u)
  with update_task_db [of s k u] show ?thesis
    by (auto simp: snd_step dict_keys_setitem_present)
next
  case (Delete k)
  then have "dict_keys (tasks_db (snd (step s r))) = filter (\<lambda>j. j \<noteq> k) (dict_keys (tasks_db s))"
    by (simp add: snd_step delete_task_db dict_keys_delitem)
  then show ?thesis by blast
next
  case (Get k)
  then show ?thesis by (simp add: snd_step)
next
  case ListAll
  then show ?thesis by (simp add: snd_step)
qed

lemma common_order_cases:
  assumes "ys = xs \<or> (\<exists>c. c \<notin> set xs \<and> ys = xs @ [c]) \<or> (\<exists>k. ys = filter (\<lambda>j. j \<noteq> k) xs)"
  shows "filter (\<lambda>j. j \<in> set ys) xs = filter (\<lambda>j. j \<in> set xs) ys"
proof -
  have "filter (\<lambda>j. j \<in> set xs) xs = xs"
    by (simp add: filter_id_conv)
  moreover have "filter (\<lambda>j. j \<in> set (xs @ [c])) xs = xs" for c
    by (simp add: filter_id_conv)
  moreover have "filter (\<lambda>j. j \<in> set (filter (\<lambda>j. j \<noteq> k) xs)) xs = filter (\<lambda>j. j \<noteq> k) xs"
      "filter (\<lambda>j. j \<in> set xs) (filter (\<lambda>j. j \<noteq> k) xs) = filter (\<lambda>j. j \<noteq> k) xs" for k
    by (auto intro: filter_cong simp: filter_id_conv)
  ultimately show ?thesis
    using assms by auto
qed

subsection \<open>The example store\<close>

lemma ex_store_eq: "ex_store = \<lparr>tasks_db = [(1, ex_task)], current_id = 1\<rparr>"
  by (simp add: ex_store_def create_task_def get_next_id_def init_store_def ex_create_def
      ex_task_def Let_def)

lemma ex_store2_eq: "ex_store2 = \<lparr>tasks_db = [(1, ex_task), (2, ex_task2)], current_id = 2\<rparr>"
  by (simp add: ex_store2_def ex_store_eq create_task_def get_next_id_def ex_create2_def
      ex_task2_def Let_def)

subsection \<open>Lookups of an absent id\<close>

text \<open>
  C3. For every store and every id that is no key of \<^verbatim>\<open>tasks_db\<close>, each of
  \<^verbatim>\<open>get_task\<close>, \<^verbatim>\<open>update_task\<close> and \<^verbatim>\<open>delete_task\<close> raises
  \<^verbatim>\<open>HTTPException(status_code=404, detail="Task not found")\<close> and returns the store,
  dictionary and counter, as it was; on an id that is a key none of the three
  raises that exception.
\<close>

theorem absent_id_not_found:
  "(k \<notin> set (dict_keys (tasks_db s)) \<longrightarrow>
      get_task s k = (Inl (HTTPException 404 ''Task not found''), s) \<and>
      update_task s k u = (Inl (HTTPException 404 ''Task not found''), s) \<and>
      delete_task s k = (Inl (HTTPException 404 ''Task not found''), s)) \<and>
   (k \<in> set (dict_keys (tasks_db s)) \<longrightarrow>
      fst (get_task s k) \<noteq> Inl (HTTPException 404 ''Task not found'') \<and>
      fst (update_task s k u) \<noteq> Inl (HTTPException 404 ''Task not found'') \<and>
      fst (delete_task s k) \<noteq> Inl (HTTPException 404 ''Task not found''))"
proof (cases "dict_get (tasks_db s) k")
  case None
  then have "k \<notin> set (dict_keys (tasks_db s))" "\<not> dict_contains (tasks_db s) k"
    by (simp_all add: dict_get_None_keys dict_contains_get)
  with None show ?thesis
    by (simp add: get_task_def update_task_def delete_task_def not_found_def)
next
  case (Some t)
  then have "k \<in> set (dict_keys (tasks_db s))" "dict_contains (tasks_db s) k"
    using dict_get_None_keys [of "tasks_db s" k] by (simp_all add: dict_contains_get)
  with Some show ?thesis
    by (auto simp: get_task_def update_task_def delete_task_def not_found_def Task_init_def Let_def
          split: option.splits sum.splits)
qed

theorem absent_id_not_found_witness:
  "2 \<notin> set (dict_keys (tasks_db ex_store)) \<and>
   get_task ex_store 2 = (Inl (HTTPException 404 ''Task not found''), ex_store) \<and>
   update_task ex_store 2 TaskUpdate_empty = (Inl (HTTPException 404 ''Task not found''), ex_store) \<and>
   delete_task ex_store 2 = (Inl (HTTPException 404 ''Task not found''), ex_store) \<and>
   1 \<in> set (dict_keys (tasks_db ex_store)) \<and>
   fst (get_task ex_store 1) \<noteq> Inl (HTTPException 404 ''Task not found'') \<and>
   fst (update_task ex_store 1 TaskUpdate_empty) \<noteq> Inl (HTTPException 404 ''Task not found'') \<and>
   fst (delete_task ex_store 1) \<noteq> Inl (HTTPException 404 ''Task not found'')"
proof -
  have a: "2 \<notin> set (dict_keys (tasks_db ex_store))" and p: "1 \<in> set (dict_keys (tasks_db ex_store))"
    by (simp_all add: ex_store_eq dict_keys_def)
  show ?thesis
    using a p absent_id_not_found [of 2 ex_store TaskUpdate_empty]
      absent_id_not_found [of 1 ex_store TaskUpdate_empty]
    by simp
qed

subsection \<open>The empty update\<close>

lemma Task_init_empty: "Task_init (dict_update (Task_dict t) TaskUpdate_empty) = Inr t"
  by (simp add: Task_init_def dict_update_def Task_dict_def overlay_def TaskUpdate_empty_def)

text \<open>
  C7. For every id that is a key of the store, \<^verbatim>\<open>update_task\<close> with the empty
  update succeeds, returns the stored task as it is and leaves the whole store,
  the entry and its position included, as it was.
\<close>

theorem update_task_empty_noop:
  "dict_get (tasks_db s) k = Some t \<Longrightarrow> update_task s k TaskUpdate_empty = (Inr t, s)"
  by (simp add: update_task_def Task_init_empty dict_setitem_same)

theorem update_task_empty_noop_witness:
  "dict_get (tasks_db ex_store) 1 = Some ex_task \<and>
   update_task ex_store 1 TaskUpdate_empty = (Inr ex_task, ex_store)"
proof -
  have h: "dict_get (tasks_db ex_store) 1 = Some ex_task"
    by (simp add: ex_store_eq)
  show ?thesis
    using h update_task_empty_noop [OF h] by simp
qed

subsection \<open>An update whose merge is no valid task\<close>

lemma Task_init_error: "Task_init d = Inl e \<Longrightarrow> e = ValidationError"
  by (auto simp: Task_init_def split: option.splits)

lemma Task_init_merge_invalid:
  "(\<exists>e. Task_init (dict_update (Task_dict t) u) = Inl e) \<longleftrightarrow>
     title_upd u = Given None \<or> status_upd u = Given None"
  by (cases "title_upd u"; cases "status_upd u")
     (auto simp: Task_init_def dict_update_def Task_dict_def overlay_def split: option.splits)

lemma update_task_refused_keeps_store:
  assumes "dict_get (tasks_db s) k = Some t"
    and "title_upd u = Given None \<or> status_upd u = Given None"
  shows "update_task s k u = (Inl ValidationError, s)"
proof -
  from assms(2) obtain e where "Task_init (dict_update (Task_dict t) u) = Inl e"
    using Task_init_merge_invalid [of t u] by blast
  moreover from this have "e = ValidationError" by (rule Task_init_error)
  ultimately show ?thesis
    using assms(1) by (simp add: update_task_def)
qed

text \<open>
  C6. The claim: an update whose merge with the stored task violates the schema
  of a task fails with the validation error that is surfaced as HTTP 422, before
  any state mutation. The code, on the store holding task 1 and the request
  \<^verbatim>\<open>PUT /tasks/1\<close> with the body \<^verbatim>\<open>{"title": null}\<close>: the id is present, so the
  handler passes its 404 check; \<^verbatim>\<open>Task(**updated_task_data)\<close> then raises
  \<^verbatim>\<open>ValidationError\<close> inside the handler, which neither catches it nor raises an
  \<^verbatim>\<open>HTTPException\<close> for it as it does for a missing id, so the exception leaves
  \<^verbatim>\<open>update_task\<close> as it is; the store is unchanged. The same \<^verbatim>\<open>null\<close> title in a
  create payload is refused when the \<^verbatim>\<open>TaskCreate\<close> is built, before
  \<^verbatim>\<open>create_task\<close> runs.
\<close>

theorem update_task_null_title_raises:
  "dict_get (tasks_db ex_store) 1 = Some ex_task \<and>
   title_upd ex_null_title = Given None \<and>
   update_task ex_store 1 ex_null_title = (Inl ValidationError, ex_store) \<and>
   update_task ex_store 2 ex_null_title = (Inl (HTTPException 404 ''Task not found''), ex_store) \<and>
   TaskCreate_init ex_args_null_title = Inl ValidationError"
proof -
  have g: "dict_get (tasks_db ex_store) 1 = Some ex_task"
    by (simp add: ex_store_eq)
  have u: "update_task ex_store 1 ex_null_title = (Inl ValidationError, ex_store)"
    by (simp add: update_task_def g Task_init_def dict_update_def Task_dict_def overlay_def
        ex_null_title_def)
  have n: "update_task ex_store 2 ex_null_title =
      (Inl (HTTPException 404 ''Task not found''), ex_store)"
    by (simp add: update_task_def ex_store_eq not_found_def)
  have c: "TaskCreate_init ex_args_null_title = Inl ValidationError"
    by (simp add: TaskCreate_init_def ex_args_null_title_def)
  have t: "title_upd ex_null_title = Given None"
    by (simp add: ex_null_title_def)
  show ?thesis
    by (simp only: g t u n c simp_thms)
qed

subsection \<open>The overlay of an update\<close>

lemma update_task_Inr:
  assumes "dict_get (tasks_db s) k = Some t" and "update_task s k u = (Inr t', s')"
  shows "Task_init (dict_update (Task_dict t) u) = Inr t'"
    and "s' = s\<lparr>tasks_db := dict_setitem (tasks_db s) k t'\<rparr>"
  using assms by (auto simp: update_task_def Let_def split: sum.splits)

lemma Task_init_merge_fields:
  assumes "Task_init (dict_update (Task_dict t) u) = Inr t'"
  shows "id_field t' = id_field t" and "created_at t' = created_at t"
    and "overlay (title_upd u) (Some (title t)) = Some (title t')"
    and "description t' = overlay (description_upd u) (description t)"
    and "overlay (status_upd u) (Some (status t)) = Some (status t')"
    and "due_date t' = overlay (due_date_upd u) (due_date t)"
    and "assignee t' = overlay (assignee_upd u) (assignee t)"
  using assms
  by (auto simp: Task_init_def dict_update_def Task_dict_def split: option.splits)

lemma update_task_keeps_identity:
  assumes "dict_get (tasks_db s) k = Some t"
  shows "\<exists>t'. dict_get (tasks_db (snd (update_task s j u))) k = Some t' \<and>
           id_field t' = id_field t \<and> created_at t' = created_at t"
proof (cases "dict_get (tasks_db s) j")
  case None
  then show ?thesis using assms by (simp add: update_task_def)
next
  case (Some tj)
  show ?thesis
  proof (cases "Task_init (dict_update (Task_dict tj) u)")
    case (Inl e)
    then show ?thesis using assms Some by (simp add: update_task_def)
  next
    case (Inr tj')
    then have s': "snd (update_task s j u) = s\<lparr>tasks_db := dict_setitem (tasks_db s) j tj'\<rparr>"
      using Some by (simp add: update_task_def)
    have "dict_get (tasks_db (snd (update_task s j u))) k = Some (if k = j then tj' else t)"
      using assms by (simp add: s' dict_get_setitem)
    moreover have "id_field tj' = id_field tj" "created_at tj' = created_at tj"
      using Task_init_merge_fields(1,2) [OF Inr] by simp_all
    moreover have "k = j \<Longrightarrow> tj = t"
      using Some assms by simp
    ultimately show ?thesis
      by auto
  qed
qed

lemma updates_keep_identity:
  "dict_get (tasks_db s) k = Some t \<Longrightarrow>
   \<exists>t'. dict_get (tasks_db (run s (map (\<lambda>(j, u). Update j u) us))) k = Some t' \<and>
         id_field t' = id_field t \<and> created_at t' = created_at t"
proof (induction us arbitrary: s t)
  case Nil
  then show ?case by simp
next
  case (Cons ju us)
  obtain j u where ju: "ju = (j, u)" by (cases ju)
  from update_task_keeps_identity [OF Cons.prems, of j u]
  obtain t1 where t1: "dict_get (tasks_db (snd (update_task s j u))) k = Some t1"
    "id_field t1 = id_field t" "created_at t1 = created_at t" by blast
  from Cons.IH [OF t1(1)] t1(2,3) show ?case
    by (simp add: ju snd_step)
qed

text \<open>
  C4. For every stored task and every update, a successful \<^verbatim>\<open>update_task\<close>
  returns and stores a task that has the value of every field the update gives
  and the stored value of every field it omits, with the id and \<^verbatim>\<open>created_at\<close>
  of the stored task; no other entry and not the counter changes. A request
  body that names \<^verbatim>\<open>id\<close> or \<^verbatim>\<open>created_at\<close> reaches the handler as a
  \<^verbatim>\<open>TaskUpdate\<close> without them, and the update keeps both. After any number of updates, to any ids,
  failed or not, the task under \<open>k\<close> still has its id and \<^verbatim>\<open>created_at\<close>.
\<close>

theorem update_task_overlay:
  "dict_get (tasks_db s) k = Some t \<Longrightarrow>
   (\<forall>t' s'. update_task s k u = (Inr t', s') \<longrightarrow>
      id_field t' = id_field t \<and> created_at t' = created_at t \<and>
      (title_upd u = Unset \<longrightarrow> title t' = title t) \<and>
      (description_upd u = Unset \<longrightarrow> description t' = description t) \<and>
      (status_upd u = Unset \<longrightarrow> status t' = status t) \<and>
      (due_date_upd u = Unset \<longrightarrow> due_date t' = due_date t) \<and>
      (assignee_upd u = Unset \<longrightarrow> assignee t' = assignee t) \<and>
      (\<forall>v. title_upd u = Given v \<longrightarrow> v = Some (title t')) \<and>
      (\<forall>v. description_upd u = Given v \<longrightarrow> v = description t') \<and>
      (\<forall>v. status_upd u = Given v \<longrightarrow> v = Some (status t')) \<and>
      (\<forall>v. due_date_upd u = Given v \<longrightarrow> v = due_date t') \<and>
      (\<forall>v. assignee_upd u = Given v \<longrightarrow> v = assignee t') \<and>
      dict_get (tasks_db s') k = Some t' \<and>
      (\<forall>j. j \<noteq> k \<longrightarrow> dict_get (tasks_db s') j = dict_get (tasks_db s) j) \<and>
      current_id s' = current_id s) \<and>
   (\<forall>t' s'. update_task s k (TaskUpdate_init b) = (Inr t', s') \<longrightarrow>
      id_field t' = id_field t \<and> created_at t' = created_at t) \<and>
   (\<exists>t'. dict_get (tasks_db (run s (map (\<lambda>(j, u). Update j u) us))) k = Some t' \<and>
         id_field t' = id_field t \<and> created_at t' = created_at t)"
proof -
  assume g: "dict_get (tasks_db s) k = Some t"
  have *: "id_field t' = id_field t \<and> created_at t' = created_at t \<and>
      (title_upd u = Unset \<longrightarrow> title t' = title t) \<and>
      (description_upd u = Unset \<longrightarrow> description t' = description t) \<and>
      (status_upd u = Unset \<longrightarrow> status t' = status t) \<and>
      (due_date_upd u = Unset \<longrightarrow> due_date t' = due_date t) \<and>
      (assignee_upd u = Unset \<longrightarrow> assignee t' = assignee t) \<and>
      (\<forall>v. title_upd u = Given v \<longrightarrow> v = Some (title t')) \<and>
      (\<forall>v. description_upd u = Given v \<longrightarrow> v = description t') \<and>
      (\<forall>v. status_upd u = Given v \<longrightarrow> v = Some (status t')) \<and>
      (\<forall>v. due_date_upd u = Given v \<longrightarrow> v = due_date t') \<and>
      (\<forall>v. assignee_upd u = Given v \<longrightarrow> v = assignee t') \<and>
      dict_get (tasks_db s') k = Some t' \<and>
      (\<forall>j. j \<noteq> k \<longrightarrow> dict_get (tasks_db s') j = dict_get (tasks_db s) j) \<and>
      current_id s' = current_id s"
    if up: "update_task s k u = (Inr t', s')" for t' s'
  proof -
    note f = Task_init_merge_fields [OF update_task_Inr(1) [OF g up]]
    note s' = update_task_Inr(2) [OF g up]
    have "dict_get (tasks_db s') j = (if j = k then Some t' else dict_get (tasks_db s) j)" for j
      by (simp add: s' dict_get_setitem)
    moreover have "current_id s' = current_id s" by (simp add: s')
    ultimately show ?thesis
      using f by (auto simp: overlay_def)
  qed
  have "id_field t' = id_field t \<and> created_at t' = created_at t"
    if "update_task s k (TaskUpdate_init b) = (Inr t', s')" for t' s'
    using Task_init_merge_fields(1,2) [OF update_task_Inr(1) [OF g that]] by simp
  with * updates_keep_identity [OF g, of us] show ?thesis by blast
qed

theorem update_task_overlay_witness:
  "dict_get (tasks_db ex_store) 1 = Some ex_task \<and>
   update_task ex_store 1 ex_done = (Inr ex_task_done, \<lparr>tasks_db = [(1, ex_task_done)], current_id = 1\<rparr>) \<and>
   id_field ex_task_done = id_field ex_task \<and> created_at ex_task_done = created_at ex_task \<and>
   title ex_task_done = title ex_task \<and> status ex_task_done = ''done'' \<and>
   TaskUpdate_init ex_body = ex_done \<and> id_body ex_body = Given 99 \<and>
   update_task ex_store 1 (TaskUpdate_init ex_body) =
     (Inr ex_task_done, \<lparr>tasks_db = [(1, ex_task_done)], current_id = 1\<rparr>) \<and>
   dict_get (tasks_db (run ex_store (map (\<lambda>(j, u). Update j u) [(1, ex_done), (1, ex_null_title)]))) 1
     = Some ex_task_done"
proof -
  have g: "dict_get (tasks_db ex_store) 1 = Some ex_task"
    by (simp add: ex_store_eq)
  have u: "update_task ex_store 1 ex_done =
      (Inr ex_task_done, \<lparr>tasks_db = [(1, ex_task_done)], current_id = 1\<rparr>)"
    by (simp add: update_task_def ex_store_eq Task_init_def dict_update_def Task_dict_def
        overlay_def ex_done_def ex_task_def ex_task_done_def)
  have u2: "update_task \<lparr>tasks_db = [(1, ex_task_done)], current_id = 1\<rparr> 1 ex_null_title =
      (Inl ValidationError, \<lparr>tasks_db = [(1, ex_task_done)], current_id = 1\<rparr>)"
    by (simp add: update_task_def Task_init_def dict_update_def Task_dict_def
        overlay_def ex_null_title_def ex_task_done_def)
  have r: "dict_get (tasks_db (run ex_store (map (\<lambda>(j, u). Update j u)
      [(1, ex_done), (1, ex_null_title)]))) 1 = Some ex_task_done"
    by (simp add: u u2 snd_step)
  have f: "id_field ex_task_done = id_field ex_task" "created_at ex_task_done = created_at ex_task"
    "title ex_task_done = title ex_task" "status ex_task_done = ''done''"
    by (simp_all add: ex_task_def ex_task_done_def)
  have b: "TaskUpdate_init ex_body = ex_done" "id_body ex_body = Given 99"
    by (simp_all add: TaskUpdate_init_def ex_body_def ex_done_def)
  show ?thesis
    using update_task_overlay [OF g, where u = ex_done and b = ex_body
        and us = "[(1, ex_done), (1, ex_null_title)]"]
    by (simp only: g b u r f simp_thms)
qed

subsection \<open>Deleting\<close>

text \<open>
  C9. For every store and every id \<open>k\<close> that is a key of it, \<^verbatim>\<open>delete_task\<close>
  succeeds with no content, leaves the counter alone, and removes the entry of
  \<open>k\<close> and nothing else: every other key still has its task, and the
  dictionary is the old one without the entries of \<open>k\<close>, in the old order.
\<close>

theorem delete_task_frame:
  "k \<in> set (dict_keys (tasks_db s)) \<Longrightarrow>
     fst (delete_task s k) = Inr () \<and>
     current_id (snd (delete_task s k)) = current_id s \<and>
     dict_get (tasks_db (snd (delete_task s k))) k = None \<and>
     (\<forall>j. j \<noteq> k \<longrightarrow> dict_get (tasks_db (snd (delete_task s k))) j = dict_get (tasks_db s) j) \<and>
     tasks_db (snd (delete_task s k)) = filter (\<lambda>e. fst e \<noteq> k) (tasks_db s)"
proof -
  assume "k \<in> set (dict_keys (tasks_db s))"
  then have "dict_contains (tasks_db s) k"
    by (simp add: dict_contains_get dict_get_None_keys)
  then have eq: "delete_task s k = (Inr (), s\<lparr>tasks_db := dict_delitem (tasks_db s) k\<rparr>)"
    by (simp add: delete_task_def)
  have "tasks_db (snd (delete_task s k)) = filter (\<lambda>e. fst e \<noteq> k) (tasks_db s)"
    by (simp add: eq dict_delitem_filter)
  moreover have "dict_get (tasks_db (snd (delete_task s k))) j =
      (if j = k then None else dict_get (tasks_db s) j)" for j
    by (simp add: eq dict_get_delitem)
  ultimately show ?thesis
    by (simp add: eq)
qed

theorem delete_task_frame_witness:
  "1 \<in> set (dict_keys (tasks_db ex_store2)) \<and>
   fst (delete_task ex_store2 1) = Inr () \<and>
   current_id (snd (delete_task ex_store2 1)) = 2 \<and>
   dict_get (tasks_db (snd (delete_task ex_store2 1))) 1 = None \<and>
   dict_get (tasks_db (snd (delete_task ex_store2 1))) 2 = Some ex_task2 \<and>
   tasks_db (snd (delete_task ex_store2 1)) = [(2, ex_task2)]"
proof -
  have p: "1 \<in> set (dict_keys (tasks_db ex_store2))"
    by (simp add: ex_store2_eq dict_keys_def)
  show ?thesis
    using p delete_task_frame [OF p] by (simp add: ex_store2_eq)
qed

subsection \<open>Creating\<close>

text \<open>
  C8. For every structurally valid create payload (a title that is a string, a
  status that is omitted or a string, the other fields omitted, \<^verbatim>\<open>null\<close> or
  values), \<^verbatim>\<open>TaskCreate\<close> is built and \<^verbatim>\<open>create_task\<close> returns a task in
  which an omitted status is \<^verbatim>\<open>"todo"\<close>, an omitted description, due date or
  assignee is \<^verbatim>\<open>None\<close> and a given field has the given value; its id is the
  incremented counter, its \<^verbatim>\<open>created_at\<close> the clock value, and it is the task
  stored under that id.
\<close>

theorem create_task_defaults:
  "title_arg a = Given (Some t) \<Longrightarrow> status_arg a \<noteq> Given None \<Longrightarrow>
   \<exists>task_in task s'.
     TaskCreate_init a = Inr task_in \<and> create_task s task_in now = (task, s') \<and>
     title task = t \<and>
     (status_arg a = Unset \<longrightarrow> status task = ''todo'') \<and>
     (description_arg a = Unset \<longrightarrow> description task = None) \<and>
     (due_date_arg a = Unset \<longrightarrow> due_date task = None) \<and>
     (assignee_arg a = Unset \<longrightarrow> assignee task = None) \<and>
     (\<forall>v. status_arg a = Given (Some v) \<longrightarrow> status task = v) \<and>
     (\<forall>v. description_arg a = Given v \<longrightarrow> description task = v) \<and>
     (\<forall>v. due_date_arg a = Given v \<longrightarrow> due_date task = v) \<and>
     (\<forall>v. assignee_arg a = Given v \<longrightarrow> assignee task = v) \<and>
     id_field task = current_id s + 1 \<and> created_at task = now \<and>
     current_id s' = current_id s + 1 \<and>
     dict_get (tasks_db s') (current_id s + 1) = Some task"
proof -
  assume t: "title_arg a = Given (Some t)" and st: "status_arg a \<noteq> Given None"
  obtain v where v: "(case status_arg a of Unset \<Rightarrow> Some ''todo'' | Given v \<Rightarrow> v) = Some v"
    using st by (cases "status_arg a") auto
  let ?task_in = "\<lparr>title = t,
      description = (case description_arg a of Unset \<Rightarrow> None | Given v \<Rightarrow> v),
      status = v,
      due_date = (case due_date_arg a of Unset \<Rightarrow> None | Given v \<Rightarrow> v),
      assignee = (case assignee_arg a of Unset \<Rightarrow> None | Given v \<Rightarrow> v)\<rparr>"
  have init: "TaskCreate_init a = Inr ?task_in"
    by (simp add: TaskCreate_init_def t v)
  obtain task s' where c: "create_task s ?task_in now = (task, s')"
    by (cases "create_task s ?task_in now")
  from c have task: "task = \<lparr>title = t,
      description = (case description_arg a of Unset \<Rightarrow> None | Given v \<Rightarrow> v),
      status = v,
      due_date = (case due_date_arg a of Unset \<Rightarrow> None | Given v \<Rightarrow> v),
      assignee = (case assignee_arg a of Unset \<Rightarrow> None | Given v \<Rightarrow> v),
      id_field = current_id s + 1, created_at = now\<rparr>"
    and s': "s' = s\<lparr>current_id := current_id s + 1,
       tasks_db := dict_setitem (tasks_db s) (current_id s + 1) task\<rparr>"
    by (auto simp: create_task_def get_next_id_def Let_def)
  have "dict_get (tasks_db s') (current_id s + 1) = Some task"
    by (simp add: s' dict_get_setitem)
  moreover have "status_arg a = Unset \<longrightarrow> status task = ''todo''"
    using v by (auto simp: task)
  moreover have "\<forall>w. status_arg a = Given (Some w) \<longrightarrow> status task = w"
    using v by (auto simp: task)
  ultimately show ?thesis
    using init c by (auto simp: task s')
qed

theorem create_task_defaults_witness:
  "title_arg ex_args = Given (Some ''Write spec'') \<and> status_arg ex_args \<noteq> Given None \<and>
   TaskCreate_init ex_args = Inr ex_create \<and>
   create_task init_store ex_create ex_now = (ex_task, ex_store) \<and>
   status ex_task = ''todo'' \<and> description ex_task = None \<and> due_date ex_task = None \<and>
   assignee ex_task = None \<and> id_field ex_task = 1 \<and>
   dict_get (tasks_db ex_store) 1 = Some ex_task"
proof -
  have h1: "title_arg ex_args = Given (Some ''Write spec'')"
    and h2: "status_arg ex_args \<noteq> Given None"
    by (simp_all add: ex_args_def)
  have "TaskCreate_init ex_args = Inr ex_create"
    by (simp add: TaskCreate_init_def ex_args_def ex_create_def)
  moreover have "create_task init_store ex_create ex_now = (ex_task, ex_store)"
    by (simp add: ex_store_eq create_task_def get_next_id_def init_store_def ex_create_def
      ex_task_def Let_def)
  ultimately show ?thesis
    using h1 h2 create_task_defaults [OF h1 h2, of init_store ex_now]
    by (simp add: ex_store_eq ex_task_def)
qed

subsection \<open>The order of the listing\<close>

text \<open>
  C10. A successful \<^verbatim>\<open>update_task\<close> keeps the keys of the dictionary in their
  order, and the listing after it is the listing before it with the updated task
  in the slot of its key. A successful \<^verbatim>\<open>delete_task\<close> leaves the other
  entries in their order (the listing is a subsequence of the old one, one
  shorter when the keys are distinct, as those of a \<^verbatim>\<open>dict\<close> are). And for
  every request, the keys present both before and after it are in the same
  order before and after.
\<close>

theorem listing_order_preserved:
  "(\<forall>t' s'. update_task s k u = (Inr t', s') \<longrightarrow>
      dict_keys (tasks_db s') = dict_keys (tasks_db s) \<and>
      (\<exists>i<length (fst (list_tasks s)).
          dict_keys (tasks_db s) ! i = k \<and>
          fst (list_tasks s') = (fst (list_tasks s))[i := t'])) \<and>
   (fst (delete_task s k) = Inr () \<longrightarrow>
      dict_keys (tasks_db (snd (delete_task s k))) = filter (\<lambda>j. j \<noteq> k) (dict_keys (tasks_db s)) \<and>
      fst (list_tasks (snd (delete_task s k))) =
        map snd (filter (\<lambda>e. fst e \<noteq> k) (tasks_db s)) \<and>
      subseq (fst (list_tasks (snd (delete_task s k)))) (fst (list_tasks s)) \<and>
      (distinct (dict_keys (tasks_db s)) \<longrightarrow>
         length (fst (list_tasks (snd (delete_task s k)))) + 1 = length (fst (list_tasks s)))) \<and>
   filter (\<lambda>j. j \<in> set (dict_keys (tasks_db (snd (step s r))))) (dict_keys (tasks_db s)) =
   filter (\<lambda>j. j \<in> set (dict_keys (tasks_db s))) (dict_keys (tasks_db (snd (step s r))))"
proof (intro conjI allI impI)
  fix t' s'
  assume up: "update_task s k u = (Inr t', s')"
  then obtain t where g: "dict_get (tasks_db s) k = Some t"
    by (cases "dict_get (tasks_db s) k") (auto simp: update_task_def)
  note s' = update_task_Inr(2) [OF g up]
  show "dict_keys (tasks_db s') = dict_keys (tasks_db s)"
    using g by (simp add: s' dict_keys_setitem_present)
  from dict_setitem_present_nth [of "tasks_db s" k t'] g
  obtain i where i: "i < length (tasks_db s)" "fst (tasks_db s ! i) = k"
    "dict_setitem (tasks_db s) k t' = (tasks_db s)[i := (k, t')]" by auto
  then have "i < length (fst (list_tasks s)) \<and> dict_keys (tasks_db s) ! i = k \<and>
      fst (list_tasks s') = (fst (list_tasks s))[i := t']"
    by (simp add: s' list_tasks_def dict_values_def dict_keys_def map_update)
  then show "\<exists>i<length (fst (list_tasks s)). dict_keys (tasks_db s) ! i = k \<and>
      fst (list_tasks s') = (fst (list_tasks s))[i := t']" by blast
next
  show "dict_keys (tasks_db (snd (delete_task s k))) = filter (\<lambda>j. j \<noteq> k) (dict_keys (tasks_db s))"
    by (simp add: delete_task_db dict_keys_delitem)
next
  show "fst (list_tasks (snd (delete_task s k))) = map snd (filter (\<lambda>e. fst e \<noteq> k) (tasks_db s))"
    by (simp add: list_tasks_def dict_values_def delete_task_db dict_delitem_filter)
next
  show "subseq (fst (list_tasks (snd (delete_task s k)))) (fst (list_tasks s))"
    by (simp add: list_tasks_def dict_values_def delete_task_db dict_delitem_filter subseq_map)
next
  assume "fst (delete_task s k) = Inr ()" and "distinct (dict_keys (tasks_db s))"
  then show "length (fst (list_tasks (snd (delete_task s k)))) + 1 = length (fst (list_tasks s))"
    using length_filter_distinct_key [of "tasks_db s" k]
    by (simp add: delete_task_Inr list_tasks_def dict_values_def delete_task_db dict_delitem_filter
        dict_keys_def)
next
  show "filter (\<lambda>j. j \<in> set (dict_keys (tasks_db (snd (step s r))))) (dict_keys (tasks_db s)) =
   filter (\<lambda>j. j \<in> set (dict_keys (tasks_db s))) (dict_keys (tasks_db (snd (step s r))))"
    by (rule common_order_cases) (rule step_keys)
qed

theorem listing_order_preserved_witness:
  "update_task ex_store2 1 ex_done =
     (Inr ex_task_done, \<lparr>tasks_db = [(1, ex_task_done), (2, ex_task2)], current_id = 2\<rparr>) \<and>
   fst (list_tasks ex_store2) = [ex_task, ex_task2] \<and>
   fst (list_tasks \<lparr>tasks_db = [(1, ex_task_done), (2, ex_task2)], current_id = 2\<rparr>) =
     [ex_task_done, ex_task2] \<and>
   fst (delete_task ex_store2 1) = Inr () \<and>
   distinct (dict_keys (tasks_db ex_store2)) \<and>
   fst (list_tasks (snd (delete_task ex_store2 1))) = [ex_task2]"
proof -
  have u: "update_task ex_store2 1 ex_done =
     (Inr ex_task_done, \<lparr>tasks_db = [(1, ex_task_done), (2, ex_task2)], current_id = 2\<rparr>)"
    by (simp add: update_task_def ex_store2_eq Task_init_def dict_update_def Task_dict_def
        overlay_def ex_done_def ex_task_def ex_task_done_def)
  have d: "delete_task ex_store2 1 = (Inr (), \<lparr>tasks_db = [(2, ex_task2)], current_id = 2\<rparr>)"
    by (simp add: delete_task_def ex_store2_eq)
  have l: "fst (list_tasks ex_store2) = [ex_task, ex_task2]"
    "fst (list_tasks \<lparr>tasks_db = [(1, ex_task_done), (2, ex_task2)], current_id = 2\<rparr>) =
       [ex_task_done, ex_task2]"
    "distinct (dict_keys (tasks_db ex_store2))"
    by (simp_all add: list_tasks_def dict_values_def dict_keys_def ex_store2_eq)
  have l': "fst (list_tasks (snd (delete_task ex_store2 1))) = [ex_task2]"
    "fst (delete_task ex_store2 1) = Inr ()"
    by (simp_all add: d list_tasks_def dict_values_def)
  show ?thesis
    using listing_order_preserved [of ex_store2 1 ex_done "Delete 1"]
    by (simp only: u l l' simp_thms)
qed

subsection \<open>The id counter\<close>

lemma create_task_id: "id_field (fst (create_task s task_in now)) = current_id s + 1"
  by (simp add: create_task_def get_next_id_def Let_def)

lemma create_task_counter: "current_id (snd (create_task s task_in now)) = current_id s + 1"
  by (simp add: create_task_def get_next_id_def Let_def)

lemma update_task_counter: "current_id (snd (update_task s k u)) = current_id s"
  by (simp add: update_task_def Let_def split: option.splits sum.splits)

lemma delete_task_counter: "current_id (snd (delete_task s k)) = current_id s"
  by (simp add: delete_task_def)

lemma step_counter:
  "current_id (snd (step s r)) = current_id s + int (n_creates [r])"
  by (cases r) (simp_all add: snd_step create_task_counter update_task_counter delete_task_counter)

lemma n_creates_Cons: "n_creates (r # rs) = n_creates [r] + n_creates rs"
  by (cases r) simp_all

lemma run_counter: "current_id (run s rs) = current_id s + int (n_creates rs)"
proof (induction rs arbitrary: s)
  case Nil
  then show ?case by simp
next
  case (Cons r rs)
  show ?case
    using Cons.IH [of "snd (step s r)"] n_creates_Cons [of r rs]
    by (simp add: step_counter)
qed

lemma created_ids_upto:
  "created_ids s rs = [current_id s + 1..current_id s + int (n_creates rs)]"
proof (induction rs arbitrary: s)
  case Nil
  then show ?case by simp
next
  case (Cons r rs)
  show ?case
  proof (cases r)
    case (Create task_in now)
    have "[current_id s + 1..current_id s + int (Suc (n_creates rs))] =
        (current_id s + 1) # [current_id s + 1 + 1..current_id s + int (Suc (n_creates rs))]"
      by (rule upto_rec1) simp
    then show ?thesis
      using Cons.IH [of "snd (create_task s task_in now)"]
      by (simp add: Create create_task_id create_task_counter add.commute add.left_commute)
  next
    case (Update k u)
    then show ?thesis
      using Cons.IH [of "snd (step s r)"] by (simp add: snd_step update_task_counter)
  next
    case (Delete k)
    then show ?thesis
      using Cons.IH [of "snd (step s r)"] by (simp add: snd_step delete_task_counter)
  next
    case (Get k)
    then show ?thesis
      using Cons.IH [of "snd (step s r)"] by (simp add: snd_step)
  next
    case ListAll
    then show ?thesis
      using Cons.IH [of "snd (step s r)"] by (simp add: snd_step)
  qed
qed

lemma n_creates_map_Create: "n_creates (map (\<lambda>(task_in, now). Create task_in now) ps) = length ps"
  by (induction ps) auto

text \<open>
  C2. From the fresh store (empty dictionary, counter 0), the tasks created by
  any sequence of requests get the ids 1, 2, ..., N in the order of their
  creation, N being the number of \<^verbatim>\<open>create_task\<close> calls: the k-th created
  task has id k, and the ids are distinct and strictly increasing. For a
  sequence of N creates and nothing else these are the ids 1 to N.
\<close>

theorem created_ids_sequential:
  "created_ids init_store rs = [1..int (n_creates rs)] \<and>
   distinct (created_ids init_store rs) \<and>
   sorted_wrt (<) (created_ids init_store rs) \<and>
   created_ids init_store (map (\<lambda>(task_in, now). Create task_in now) ps) = [1..int (length ps)]"
proof -
  have "created_ids init_store rs = [1..int (n_creates rs)]" for rs
    using created_ids_upto [of init_store rs] by (simp add: init_store_def)
  then show ?thesis
    by (simp add: n_creates_map_Create strict_sorted_iff)
qed

theorem created_ids_sequential_witness:
  "created_ids init_store [Create ex_create ex_now, Delete 1, Create ex_create2 ex_now2] = [1, 2] \<and>
   created_ids init_store (map (\<lambda>(task_in, now). Create task_in now)
     [(ex_create, ex_now), (ex_create2, ex_now2), (ex_create, ex_now2)]) = [1, 2, 3]"
proof -
  have "[1..int (Suc (Suc 0))] = [1, 2]" "[1..int (length [a, b, c])] = [1, 2, 3]" for a b c :: 'a
    by (simp_all add: upto_rec1)
  then show ?thesis
    using created_ids_sequential [of "[Create ex_create ex_now, Delete 1, Create ex_create2 ex_now2]"
      "[(ex_create, ex_now), (ex_create2, ex_now2), (ex_create, ex_now2)]"]
    by simp
qed

subsection \<open>Deleted ids\<close>

lemma keys_bounded_step:
  assumes "\<forall>k \<in> set (dict_keys (tasks_db s)). k \<le> current_id s"
  shows "\<forall>k \<in> set (dict_keys (tasks_db (snd (step s r)))). k \<le> current_id (snd (step s r))"
proof (cases r)
  case (Create task_in now)
  with assms show ?thesis
    by (auto simp: snd_step create_task_db create_task_counter dict_keys_setitem split: if_splits)
next
  case (Update k u)
  with assms update_task_db [of s k u] show ?thesis
    by (auto simp: snd_step update_task_counter dict_keys_setitem_present)
next
  case (Delete k)
  with assms show ?thesis
    by (auto simp: snd_step delete_task_db delete_task_counter dict_keys_delitem)
next
  case (Get k)
  with assms show ?thesis by (simp add: snd_step)
next
  case ListAll
  with assms show ?thesis by (simp add: snd_step)
qed

lemma keys_bounded_run:
  "\<forall>k \<in> set (dict_keys (tasks_db s)). k \<le> current_id s \<Longrightarrow>
   \<forall>k \<in> set (dict_keys (tasks_db (run s rs))). k \<le> current_id (run s rs)"
proof (induction rs arbitrary: s)
  case Nil
  then show ?case by simp
next
  case (Cons r rs)
  from Cons.IH [OF keys_bounded_step [OF Cons.prems, of r]] show ?case by simp
qed

text \<open>
  C5. From the fresh store, after any sequence of requests, once
  \<^verbatim>\<open>delete_task(k)\<close> has succeeded no task created by any later sequence of
  requests gets the id \<open>k\<close>, and neither does a \<^verbatim>\<open>create_task\<close> after it. In
  every store \<^verbatim>\<open>delete_task\<close> leaves the counter as it is, and no sequence of
  requests makes the counter smaller.
\<close>

theorem deleted_id_not_reused:
  "fst (delete_task (run init_store rs1) k) = Inr () \<Longrightarrow>
     k \<notin> set (created_ids (snd (delete_task (run init_store rs1) k)) rs2) \<and>
     id_field (fst (create_task (run (snd (delete_task (run init_store rs1) k)) rs2) task_in now)) \<noteq> k \<and>
     current_id (snd (delete_task s k')) = current_id s \<and>
     current_id s \<le> current_id (run s rs)"
proof -
  assume d: "fst (delete_task (run init_store rs1) k) = Inr ()"
  let ?s1 = "run init_store rs1"
  let ?s2 = "snd (delete_task ?s1 k)"
  have "\<forall>k \<in> set (dict_keys (tasks_db ?s1)). k \<le> current_id ?s1"
    by (rule keys_bounded_run) (simp add: init_store_def dict_keys_def)
  moreover have "k \<in> set (dict_keys (tasks_db ?s1))"
    using d by (simp add: delete_task_Inr)
  ultimately have k: "k \<le> current_id ?s2"
    by (simp add: delete_task_counter)
  have "k \<notin> set (created_ids ?s2 rs2)"
    using k by (simp add: created_ids_upto)
  moreover have "id_field (fst (create_task (run ?s2 rs2) task_in now)) \<noteq> k"
    using k by (simp add: create_task_id run_counter)
  ultimately show ?thesis
    by (simp add: delete_task_counter run_counter)
qed

theorem deleted_id_not_reused_witness:
  "fst (delete_task (run init_store [Create ex_create ex_now]) 1) = Inr () \<and>
   created_ids (snd (delete_task (run init_store [Create ex_create ex_now]) 1))
     [Create ex_create2 ex_now2, Create ex_create ex_now2] = [2, 3] \<and>
   id_field (fst (create_task (run (snd (delete_task (run init_store [Create ex_create ex_now]) 1))
     [Create ex_create2 ex_now2]) ex_create ex_now2)) = 3"
proof -
  have r: "run init_store [Create ex_create ex_now] = ex_store"
    by (simp add: snd_step ex_store_def)
  have d: "delete_task ex_store 1 = (Inr (), \<lparr>tasks_db = [], current_id = 1\<rparr>)"
    by (simp add: delete_task_def ex_store_eq)
  have h: "fst (delete_task (run init_store [Create ex_create ex_now]) 1) = Inr ()"
    unfolding r by (simp add: d)
  have c: "created_ids (snd (delete_task (run init_store [Create ex_create ex_now]) 1))
     [Create ex_create2 ex_now2, Create ex_create ex_now2] = [2, 3]"
    unfolding r by (simp add: d create_task_id create_task_counter)
  have i: "id_field (fst (create_task (run (snd (delete_task (run init_store [Create ex_create ex_now]) 1))
     [Create ex_create2 ex_now2]) ex_create ex_now2)) = 3"
    unfolding r by (simp add: d snd_step create_task_id create_task_counter)
  show ?thesis
    using deleted_id_not_reused [OF h, of "[Create ex_create2 ex_now2]" ex_create ex_now2]
    by (simp only: h c i simp_thms)
qed

subsection \<open>The listing after a sequence of requests\<close>

lemma Task_init_spec_merge:
  "Task_init (dict_update (Task_dict t) u) =
     (case spec_merge t u of None \<Rightarrow> Inl ValidationError | Some t' \<Rightarrow> Inr t')"
  by (cases "title_upd u"; cases "status_upd u"; cases "description_upd u";
      cases "due_date_upd u"; cases "assignee_upd u")
     (auto simp: Task_init_def dict_update_def Task_dict_def overlay_def spec_merge_def
        split: option.splits)

lemma spec_merge_id: "spec_merge t u = Some t' \<Longrightarrow> id_field t' = id_field t"
  by (auto simp: spec_merge_def split: if_splits)

lemma dict_get_entries: "dict_get (entries f ks) k = (if k \<in> set ks then f k else None)"
  by (induction ks) (auto split: option.splits)

lemma entries_cong: "(\<And>k. k \<in> set ks \<Longrightarrow> f k = g k) \<Longrightarrow> entries f ks = entries g ks"
  by (induction ks) (auto split: option.splits)

lemma entries_append: "entries f (ks @ ls) = entries f ks @ entries f ls"
  by (induction ks) (auto split: option.splits)

lemma dict_delitem_entries: "dict_delitem (entries f ks) j = entries (f(j := None)) ks"
  by (induction ks) (auto split: option.splits)

lemma dict_setitem_entries:
  "distinct ks \<Longrightarrow> j \<in> set ks \<Longrightarrow> f j \<noteq> None \<Longrightarrow>
   dict_setitem (entries f ks) j v = entries (f(j \<mapsto> v)) ks"
proof (induction ks)
  case Nil
  then show ?case by simp
next
  case (Cons k ks)
  show ?case
  proof (cases "k = j")
    case True
    with Cons.prems have "j \<notin> set ks" by simp
    then have e: "entries (f(j \<mapsto> v)) ks = entries f ks"
      by (intro entries_cong) auto
    from Cons.prems obtain y where y: "f j = Some y" by auto
    have "dict_setitem (entries f (k # ks)) j v = (j, v) # entries f ks"
      by (simp add: True y)
    moreover have "entries (f(j \<mapsto> v)) (k # ks) = (j, v) # entries (f(j \<mapsto> v)) ks"
      by (simp add: True)
    ultimately show ?thesis by (simp only: e)
  next
    case False
    with Cons show ?thesis by (auto split: option.splits)
  qed
qed

lemma values_entries: "dict_values (entries f ks) = List.map_filter f ks"
  by (induction ks) (auto simp: dict_values_def map_filter_simps split: option.splits)

lemma keys_entries: "dict_keys (entries f ks) = filter (\<lambda>k. f k \<noteq> None) ks"
  by (induction ks) (auto simp: dict_keys_def split: option.splits)

lemma spec_task_range: "spec_task h k \<noteq> None \<Longrightarrow> 1 \<le> k \<and> k \<le> int (n_creates h)"
proof (induction h)
  case Nil
  then show ?case by simp
next
  case (Cons r h)
  then show ?case
    by (cases r) (auto split: if_splits option.splits)
qed

lemma spec_task_id: "spec_task h k = Some t \<Longrightarrow> id_field t = k"
proof (induction h arbitrary: t)
  case Nil
  then show ?case by simp
next
  case (Cons r h)
  then show ?case
    by (cases r) (auto split: if_splits option.splits dest: spec_merge_id)
qed

lemma spec_task_alive: "spec_task h k \<noteq> None \<longleftrightarrow> spec_alive h k"
proof (induction h)
  case Nil
  then show ?case by simp
next
  case (Cons r h)
  then show ?case
    by (cases r) (auto split: if_splits option.splits)
qed

lemma ids_entries:
  "map id_field (dict_values (entries (spec_task h) ks)) = dict_keys (entries (spec_task h) ks)"
  by (induction ks) (auto simp: dict_values_def dict_keys_def spec_task_id split: option.splits)

lemma run_append: "run s (rs @ rs') = run (run s rs) rs'"
  by (induction rs arbitrary: s) auto

lemma n_creates_append: "n_creates (rs @ rs') = n_creates rs + n_creates rs'"
proof (induction rs)
  case Nil
  then show ?case by simp
next
  case (Cons r rs)
  then show ?case using n_creates_Cons [of r rs] n_creates_Cons [of r "rs @ rs'"] by simp
qed

lemma n_creates_rev: "n_creates (rev rs) = n_creates rs"
proof (induction rs)
  case Nil
  then show ?case by simp
next
  case (Cons r rs)
  then show ?case using n_creates_Cons [of r rs] by (simp add: n_creates_append)
qed

lemma step_spec:
  assumes c: "current_id s = int (n_creates h)"
    and d: "tasks_db s = entries (spec_task h) [1..int (n_creates h)]"
  shows "tasks_db (snd (step s r)) = entries (spec_task (r # h)) [1..int (n_creates (r # h))]"
proof (cases r)
  case (Create task_in now)
  let ?n = "int (n_creates h)"
  let ?t = "fst (create_task s task_in now)"
  have t: "?t = \<lparr>title = title task_in, description = description task_in,
                 status = status task_in, due_date = due_date task_in,
                 assignee = assignee task_in, id_field = ?n + 1, created_at = now\<rparr>"
    by (simp add: create_task_def get_next_id_def Let_def c)
  have "dict_get (tasks_db s) (?n + 1) = None"
    by (simp add: d dict_get_entries)
  then have "tasks_db (snd (step s r)) = tasks_db s @ [(?n + 1, ?t)]"
    by (simp add: Create snd_step create_task_db c dict_setitem_absent)
  moreover have "[1..?n + 1] = [1..?n] @ [?n + 1]"
    using upto_rec2 [of 1 "?n + 1"] by simp
  moreover have "entries (spec_task (r # h)) [1..?n] = entries (spec_task h) [1..?n]"
    by (rule entries_cong) (simp add: Create)
  moreover have "entries (spec_task (r # h)) [?n + 1] = [(?n + 1, ?t)]"
    by (simp add: Create t)
  ultimately show ?thesis
    by (simp add: Create d entries_append add.commute)
next
  case (Update j u)
  have n: "n_creates (r # h) = n_creates h"
    by (simp add: Update)
  show ?thesis
  proof (cases "spec_task h j")
    case None
    then have "dict_get (tasks_db s) j = None"
      by (simp add: d dict_get_entries)
    then have t: "tasks_db (snd (step s r)) = tasks_db s"
      by (simp add: Update snd_step update_task_def)
    have f: "spec_task (r # h) = spec_task h"
      using None by (auto simp: Update intro!: ext)
    show ?thesis
      by (simp only: t f n d)
  next
    case (Some t)
    with spec_task_range [of h j] have j: "j \<in> set [1..int (n_creates h)]" by simp
    with Some have g: "dict_get (tasks_db s) j = Some t"
      by (simp add: d dict_get_entries)
    show ?thesis
    proof (cases "spec_merge t u")
      case None
      then have t: "tasks_db (snd (step s r)) = tasks_db s"
        using g by (simp add: Update snd_step update_task_def Task_init_spec_merge)
      have f: "spec_task (r # h) = spec_task h"
        using None Some by (auto simp: Update intro!: ext)
      show ?thesis
        by (simp only: t f n d)
    next
      case (Some t')
      then have t: "tasks_db (snd (step s r)) = dict_setitem (tasks_db s) j t'"
        using g by (simp add: Update snd_step update_task_def Task_init_spec_merge)
      have f: "spec_task (r # h) = (spec_task h)(j \<mapsto> t')"
        using Some \<open>spec_task h j = Some t\<close> by (auto simp: Update intro!: ext)
      have "dict_setitem (entries (spec_task h) [1..int (n_creates h)]) j t' =
          entries ((spec_task h)(j \<mapsto> t')) [1..int (n_creates h)]"
        using j \<open>spec_task h j = Some t\<close> by (intro dict_setitem_entries) simp_all
      then show ?thesis
        by (simp only: t f n d)
    qed
  qed
next
  case (Delete j)
  have "spec_task (r # h) = (spec_task h)(j := None)"
    by (auto simp: Delete intro!: ext)
  then show ?thesis
    by (simp add: Delete snd_step delete_task_db d dict_delitem_entries)
next
  case (Get j)
  have "spec_task (r # h) = spec_task h" by (auto simp: Get intro!: ext)
  then show ?thesis by (simp add: Get snd_step d)
next
  case ListAll
  have "spec_task (r # h) = spec_task h" by (auto simp: ListAll intro!: ext)
  then show ?thesis by (simp add: ListAll snd_step d)
qed

lemma run_spec:
  "tasks_db (run init_store rs) = entries (spec_task (rev rs)) [1..int (n_creates rs)]"
proof (induction rs rule: rev_induct)
  case Nil
  then show ?case by (simp add: init_store_def)
next
  case (snoc r rs)
  have c: "current_id (run init_store rs) = int (n_creates (rev rs))"
    by (simp add: run_counter init_store_def n_creates_rev)
  have d: "tasks_db (run init_store rs) = entries (spec_task (rev rs)) [1..int (n_creates (rev rs))]"
    using snoc.IH by (simp add: n_creates_rev)
  have "n_creates (rs @ [r]) = n_creates (r # rev rs)"
    using n_creates_Cons [of r "rev rs"] by (simp add: n_creates_append n_creates_rev)
  with step_spec [OF c d, of r] show ?case
    by (simp add: run_append)
qed

text \<open>
  C1. After every finite sequence of requests from the fresh store,
  \<^verbatim>\<open>list_tasks\<close> returns, for the ids 1 to N in the order of their creation (N
  the number of creates), the tasks of the ids that were created and not deleted
  since, each with the values of its most recent successful create or update;
  the ids of the listed tasks are exactly the ids alive, in that order.
\<close>

theorem list_tasks_spec:
  "fst (list_tasks (run init_store rs)) =
     List.map_filter (spec_task (rev rs)) [1..int (n_creates rs)] \<and>
   map id_field (fst (list_tasks (run init_store rs))) =
     filter (spec_alive (rev rs)) [1..int (n_creates rs)]"
proof -
  let ?d = "tasks_db (run init_store rs)"
  have v: "dict_values ?d = List.map_filter (spec_task (rev rs)) [1..int (n_creates rs)]"
    by (simp add: run_spec values_entries)
  have "map id_field (dict_values ?d) = dict_keys ?d"
    by (simp add: run_spec ids_entries)
  then have i: "map id_field (List.map_filter (spec_task (rev rs)) [1..int (n_creates rs)]) =
      dict_keys ?d"
    by (simp only: v)
  have k: "dict_keys ?d = filter (spec_alive (rev rs)) [1..int (n_creates rs)]"
    by (simp only: run_spec keys_entries spec_task_alive)
  show ?thesis
    by (simp only: list_tasks_def fst_conv v i k simp_thms)
qed

theorem list_tasks_spec_witness:
  "fst (list_tasks (run init_store ex_requests)) = [ex_task_done] \<and>
   List.map_filter (spec_task (rev ex_requests)) [1..int (n_creates ex_requests)] = [ex_task_done] \<and>
   filter (spec_alive (rev ex_requests)) [1..int (n_creates ex_requests)] = [1]"
proof -
  have r: "run init_store ex_requests = \<lparr>tasks_db = [(1, ex_task_done)], current_id = 2\<rparr>"
    by (simp add: ex_requests_def snd_step create_task_def get_next_id_def init_store_def Let_def
        update_task_def delete_task_def Task_init_def dict_update_def Task_dict_def overlay_def
        ex_create_def ex_create2_def ex_done_def ex_null_title_def ex_task_done_def)
  have l: "fst (list_tasks (run init_store ex_requests)) = [ex_task_done]"
    by (simp add: r list_tasks_def dict_values_def)
  have i: "map id_field [ex_task_done] = [1]"
    by (simp add: ex_task_done_def)
  show ?thesis
    using list_tasks_spec [of ex_requests] by (simp only: l i simp_thms)
qed

end
